theory Spec2Isabelle
  imports Main "HOL-Library.Sublist"
begin

section \<open>The Python string operations that fix\_benchmarks.py calls\<close>

text \<open>
  A Python \<open>str\<close> is modelled as a \<open>string\<close> (a \<open>char list\<close>); every \<open>char\<close> stands for
  the code point of the same number, so the model covers texts over the code points 0..255.
  The rewriter only compares characters for equality and asks whether one is whitespace.
\<close>

text \<open>\<open>sub in s\<close>: \<open>sub\<close> occurs in \<open>s\<close> as a contiguous run of characters.\<close>

definition py_in :: "string \<Rightarrow> string \<Rightarrow> bool" where
  "py_in sub s = sublist sub s"

text \<open>\<open>s.count(c)\<close> for a one-character string \<open>c\<close>; an \<open>int\<close>, since the code subtracts counts.\<close>

definition py_count :: "string \<Rightarrow> char \<Rightarrow> int" where
  "py_count s c = int (count_list s c)"

text \<open>
  \<open>s.replace(old, new)\<close>: every occurrence of \<open>old\<close>, found from the left without overlap.
  With an empty \<open>old\<close> Python puts \<open>new\<close> before every character and at the end.
\<close>

function py_replace :: "string \<Rightarrow> string \<Rightarrow> string \<Rightarrow> string" where
  "py_replace old new [] = (if old = [] then new else [])"
| "py_replace old new (c # cs) =
     (if old = [] then new @ c # py_replace old new cs
      else if prefix old (c # cs) then new @ py_replace old new (drop (length old) (c # cs))
      else c # py_replace old new cs)"
  by pat_completeness auto
termination
  by (relation "measure (\<lambda>(old, new, s). length s)") auto

text \<open>\<open>s.split(sep)\<close> for a one-character separator: never an empty list.\<close>

fun py_split :: "char \<Rightarrow> string \<Rightarrow> string list" where
  "py_split sep [] = [[]]"
| "py_split sep (c # cs) =
     (if c = sep then [] # py_split sep cs
      else (case py_split sep cs of [] \<Rightarrow> [[c]] | l # ls \<Rightarrow> (c # l) # ls))"

text \<open>\<open>sep.join(xs)\<close>.\<close>

fun py_join :: "string \<Rightarrow> string list \<Rightarrow> string" where
  "py_join sep [] = []"
| "py_join sep [x] = x"
| "py_join sep (x # y # ys) = x @ sep @ py_join sep (y # ys)"

text \<open>
  \<open>str.isspace\<close> on one character, for the code points below 256: tab, line feed, vertical
  tab, form feed, carriage return, the separators 28..31, space, NEL (133) and the no-break
  space (160).
\<close>

definition py_isspace :: "char \<Rightarrow> bool" where
  "py_isspace c = ((of_char c :: nat) \<in> {9, 10, 11, 12, 13, 28, 29, 30, 31, 32, 133, 160})"

text \<open>\<open>s.strip()\<close>: whitespace removed from both ends, nothing in between.\<close>

definition py_lstrip :: "string \<Rightarrow> string" where
  "py_lstrip s = dropWhile py_isspace s"

definition py_rstrip :: "string \<Rightarrow> string" where
  "py_rstrip s = rev (dropWhile py_isspace (rev s))"

definition py_strip :: "string \<Rightarrow> string" where
  "py_strip s = py_rstrip (py_lstrip s)"

section \<open>The rewriter: \<open>fix_benchmark_pattern\<close>\<close>

text \<open>The exceptions the program can raise, as values.\<close>

datatype py_error =
  IndexError | FileNotFoundError | PermissionError | IsADirectoryError | UnicodeDecodeError

text \<open>The string literals of the source, under the names used below.\<close>

definition NL :: string where
  "NL = [CHR 0x0A]"

definition TAB :: string where
  "TAB = [CHR 0x09]"

definition LOOP_ANCHOR :: string where
  "LOOP_ANCHOR = ''for i := 0; i < b.N; i++''"

definition HANDLER_SIG :: string where
  "HANDLER_SIG = ''handler := func(req *Request, rw *ResponseWriter)''"

definition HANDLER_SKIP :: string where
  "HANDLER_SKIP = ''handler := func''"

definition NEWCONN_OLD :: string where
  "NEWCONN_OLD = ''NewConnection(mockConn, config)''"

definition NEWCONN_NEW :: string where
  "NEWCONN_NEW = ''NewConnection(mockConn, config, handler)''"

definition SERVE_OLD :: string where
  "SERVE_OLD = ''conn.Serve(handler)''"

definition SERVE_NEW :: string where
  "SERVE_NEW = ''conn.Serve()''"

text \<open>\<open>lines[k].count('{') - lines[k].count('}')\<close>, the change of the brace count on one line.\<close>

definition brace_delta :: "string \<Rightarrow> int" where
  "brace_delta l = py_count l (CHR ''{'') - py_count l (CHR ''}'')"

text \<open>
  The \<open>for k in range(j, min(j + 15, len(lines)))\<close> loop that extracts the handler: \<open>stop\<close>
  is the end of the range, \<open>brace_count\<close> and \<open>handler_lines\<close> are the loop's variables. It
  returns \<open>(handler_def, serve_line_idx)\<close> when the loop reaches its \<open>break\<close>, and \<open>None\<close> when
  the range runs out with both variables still \<open>None\<close>. Every \<open>k\<close> of the range is below
  \<open>len(lines)\<close>, so \<open>lines[k]\<close> cannot raise.
\<close>

function extract_handler ::
  "string list \<Rightarrow> nat \<Rightarrow> nat \<Rightarrow> int \<Rightarrow> string list \<Rightarrow> (string \<times> nat) option" where
  "extract_handler lines k stop brace_count handler_lines =
     (if k < stop then
        (let handler_lines' = handler_lines @ [lines ! k];
             brace_count' = brace_count + brace_delta (lines ! k)
         in if brace_count' = 0 \<and> CHR ''{'' \<in> set (lines ! k)
            then Some (py_join NL handler_lines', k + 2)
            else extract_handler lines (Suc k) stop brace_count' handler_lines')
      else None)"
  by pat_completeness auto
termination
  by (relation "measure (\<lambda>(lines, k, stop, brace_count, handler_lines). stop - k)") auto

declare extract_handler.simps [simp del]

text \<open>
  The look-ahead \<open>while j < len(lines) and j < i + 20\<close> loop. Its state is \<open>j\<close> and
  \<open>newconn_line_idx\<close>; the handler variables are set only in the iteration that ends the loop
  (the \<open>break\<close> after the inner \<open>for\<close>), so they are part of the result only. The result is
  \<open>((handler_def, serve_line_idx), newconn_line_idx)\<close>, with \<open>None\<close> for Python's \<open>None\<close>.
\<close>

function look_ahead ::
  "string list \<Rightarrow> nat \<Rightarrow> nat \<Rightarrow> nat option \<Rightarrow> (string \<times> nat) option \<times> nat option" where
  "look_ahead lines i j newconn_line_idx =
     (if j < length lines \<and> j < i + 20 then
        (if py_in HANDLER_SIG (lines ! j)
         then (extract_handler lines j (min (j + 15) (length lines)) 0 [], newconn_line_idx)
         else look_ahead lines i (Suc j)
                (if py_in NEWCONN_OLD (lines ! j) then Some j else newconn_line_idx))
      else (None, newconn_line_idx))"
  by pat_completeness auto
termination
  by (relation "measure (\<lambda>(lines, i, j, newconn_line_idx). (i + 20) - j)") auto

declare look_ahead.simps [simp del]

text \<open>
  The \<open>while i <= serve_line_idx\<close> loop that re-emits the region after the anchor. The loop
  has no bound on \<open>len(lines)\<close>: \<open>lines[i]\<close> raises \<open>IndexError\<close> when \<open>i\<close> is past the last
  line. It returns the final \<open>i\<close> and \<open>result\<close>.
\<close>

function emit_region ::
  "string list \<Rightarrow> nat \<Rightarrow> nat \<Rightarrow> nat \<Rightarrow> string list \<Rightarrow> py_error + (nat \<times> string list)" where
  "emit_region lines i serve_line_idx newconn_line_idx result =
     (if i \<le> serve_line_idx then
        (if length lines \<le> i then Inl IndexError
         else if i = newconn_line_idx then
           emit_region lines (Suc i) serve_line_idx newconn_line_idx
             (result @ [py_replace NEWCONN_OLD NEWCONN_NEW (lines ! i)])
         else if py_in HANDLER_SKIP (lines ! i) then
           emit_region lines (Suc i) serve_line_idx newconn_line_idx result
         else if py_in SERVE_OLD (lines ! i) then
           emit_region lines (Suc i) serve_line_idx newconn_line_idx
             (result @ [py_replace SERVE_OLD SERVE_NEW (lines ! i)])
         else
           emit_region lines (Suc i) serve_line_idx newconn_line_idx (result @ [lines ! i]))
      else Inr (i, result))"
  by pat_completeness auto
termination
  by (relation "measure (\<lambda>(lines, i, serve_line_idx, newconn_line_idx, result).
                   Suc serve_line_idx - i)") auto

declare emit_region.simps [simp del]

text \<open>
  The region loop never moves \<open>i\<close> backwards. The main loop resumes at the \<open>i\<close> the region
  loop leaves, so its termination rests on this fact.
\<close>

lemma emit_region_index:
  "emit_region lines i serve_line_idx newconn_line_idx result = Inr (i', result') \<Longrightarrow> i \<le> i'"
proof (induction "Suc serve_line_idx - i" arbitrary: i result)
  case 0
  then have "\<not> i \<le> serve_line_idx"
    by simp
  with "0.prems" show ?case
    by (simp add: emit_region.simps [of lines i])
next
  case (Suc m)
  then have le: "i \<le> serve_line_idx"
    by simp
  have "\<exists>r. emit_region lines (Suc i) serve_line_idx newconn_line_idx r = Inr (i', result')"
    using Suc.prems le
    by (subst (asm) emit_region.simps) (auto split: if_splits)
  then obtain r where
    "emit_region lines (Suc i) serve_line_idx newconn_line_idx r = Inr (i', result')" ..
  moreover have "m = Suc serve_line_idx - Suc i"
    using Suc.hyps(2) by simp
  ultimately have "Suc i \<le> i'"
    by (rule Suc.hyps(1) [rotated])
  then show ?case
    by simp
qed

text \<open>
  The main \<open>while i < len(lines)\<close> loop, with its state \<open>i\<close> and \<open>result\<close>. The test
  \<open>if handler_def and newconn_line_idx\<close> is Python truthiness: a string other than the empty
  one, an index other than 0. The \<open>continue\<close> after the region loop is the recursive call on
  the region loop's final \<open>i\<close>; an exception raised there ends the run.
\<close>

function scan :: "string list \<Rightarrow> nat \<Rightarrow> string list \<Rightarrow> py_error + string list" where
  "scan lines i result =
     (if i < length lines then
        (let line = lines ! i in
         if py_in LOOP_ANCHOR line then
           (case look_ahead lines i (Suc i) None of
              (Some (handler_def, serve_line_idx), Some newconn_line_idx) \<Rightarrow>
                if handler_def \<noteq> [] \<and> newconn_line_idx \<noteq> 0 then
                  (case emit_region lines (Suc i) serve_line_idx newconn_line_idx
                          (result @ [TAB @ py_strip handler_def, [], line]) of
                     Inl e \<Rightarrow> Inl e
                   | Inr (i', result') \<Rightarrow> scan lines i' result')
                else scan lines (Suc i) (result @ [line])
            | _ \<Rightarrow> scan lines (Suc i) (result @ [line]))
         else scan lines (Suc i) (result @ [line]))
      else Inr result)"
  by pat_completeness auto
termination
  by (relation "measure (\<lambda>(lines, i, result). length lines - i)")
    (auto dest: emit_region_index)

declare scan.simps [simp del]

text \<open>
  \<open>fix_benchmark_pattern(content)\<close>. The regular expression \<open>pattern1\<close> and the function
  \<open>replace1\<close> of the source are never used and are not part of the model.
\<close>

definition fix_benchmark_pattern :: "string \<Rightarrow> py_error + string" where
  "fix_benchmark_pattern content =
     (case scan (py_split (CHR 0x0A) content) 0 [] of
        Inl e \<Rightarrow> Inl e
      | Inr result \<Rightarrow> Inr (py_join NL result))"

section \<open>The command line: \<open>main\<close>\<close>

text \<open>
  \<open>main\<close> opens the file in text mode. On reading, Python's universal newlines turn every
  \<open>\r\n\<close> and every lone \<open>\r\<close> into \<open>\n\<close>; on writing, every \<open>\n\<close> is written as the
  platform's line separator \<open>os.linesep\<close>.
\<close>

fun universal_newlines :: "string \<Rightarrow> string" where
  "universal_newlines [] = []"
| "universal_newlines [c] = (if c = CHR 0x0D then [CHR 0x0A] else [c])"
| "universal_newlines (c # d # cs) =
     (if c = CHR 0x0D \<and> d = CHR 0x0A then CHR 0x0A # universal_newlines cs
      else if c = CHR 0x0D then CHR 0x0A # universal_newlines (d # cs)
      else c # universal_newlines (d # cs))"







section \<open>Vocabulary of the statements\<close>

text \<open>
  The cumulative brace count of the lines \<open>h\<close> to \<open>k\<close> (both included): the value of
  \<open>brace_count\<close> after the extraction loop, started at \<open>h\<close>, has counted line \<open>k\<close>.
\<close>

definition brace_depth :: "string list \<Rightarrow> nat \<Rightarrow> nat \<Rightarrow> int" where
  "brace_depth lines h k = sum_list (map (\<lambda>m. brace_delta (lines ! m)) [h..<Suc k])"

text \<open>The lines \<open>h\<close> to \<open>e\<close> (both included), in order.\<close>

definition block_lines :: "string list \<Rightarrow> nat \<Rightarrow> nat \<Rightarrow> string list" where
  "block_lines lines h e = map (\<lambda>m. lines ! m) [h..<Suc e]"

text \<open>
  What one iteration of the region loop appends to \<open>result\<close> for the line \<open>k\<close>, read off the
  four branches of the loop body.
\<close>

definition emit_line :: "string list \<Rightarrow> nat \<Rightarrow> nat \<Rightarrow> string list" where
  "emit_line lines newconn_line_idx k =
     (if k = newconn_line_idx then [py_replace NEWCONN_OLD NEWCONN_NEW (lines ! k)]
      else if py_in HANDLER_SKIP (lines ! k) then []
      else if py_in SERVE_OLD (lines ! k) then [py_replace SERVE_OLD SERVE_NEW (lines ! k)]
      else [lines ! k])"

text \<open>
  The condition under which the main loop, at line \<open>i\<close>, takes the rewriting branch: the
  anchor test and the truthiness test on what the look-ahead found.
\<close>

definition rewrites_at :: "string list \<Rightarrow> nat \<Rightarrow> bool" where
  "rewrites_at lines i =
     (py_in LOOP_ANCHOR (lines ! i) \<and>
      (case look_ahead lines i (Suc i) None of
         (Some (handler_def, serve_line_idx), Some newconn_line_idx) \<Rightarrow>
           handler_def \<noteq> [] \<and> newconn_line_idx \<noteq> 0
       | _ \<Rightarrow> False))"

text \<open>
  The indices the look-ahead loop can visit from an anchor at \<open>i\<close> (\<open>j\<close> starts at \<open>i + 1\<close>
  and the loop runs while \<open>j < len(lines) and j < i + 20\<close>), and the indices the extraction
  loop can visit from a handler line \<open>h\<close> (\<open>range(h, min(h + 15, len(lines)))\<close>).
\<close>

definition window :: "string list \<Rightarrow> nat \<Rightarrow> nat set" where
  "window lines i = {Suc i..<min (i + 20) (length lines)}"

definition cap :: "string list \<Rightarrow> nat \<Rightarrow> nat set" where
  "cap lines h = {h..<min (h + 15) (length lines)}"

text \<open>\<open>h\<close> is the first line of the window of \<open>i\<close> that holds the handler signature.\<close>

definition first_handler_line :: "string list \<Rightarrow> nat \<Rightarrow> nat \<Rightarrow> bool" where
  "first_handler_line lines i h =
     (h \<in> window lines i \<and> py_in HANDLER_SIG (lines ! h) \<and>
      (\<forall>k\<in>{Suc i..<h}. \<not> py_in HANDLER_SIG (lines ! k)))"


subsection \<open>Inputs used as examples\<close>

text \<open>A handler whose braces are still open when the file ends.\<close>

definition unbalanced_example :: "string list" where
  "unbalanced_example =
     [''for i := 0; i < b.N; i++ {'',
      ''conn := NewConnection(mockConn, config)'',
      ''handler := func(req *Request, rw *ResponseWriter) error {'',
      ''if req == nil {'',
      ''return nil'',
      ''}'']"

text \<open>A benchmark with one handler written on a single line, indented with spaces.\<close>

definition indented_example :: "string list" where
  "indented_example =
     [''func BenchmarkServe(b *testing.B) {'',
      ''    for i := 0; i < b.N; i++ {'',
      ''        conn := NewConnection(mockConn, config)'',
      ''        handler := func(req *Request, rw *ResponseWriter) error { return nil }'',
      ''        conn.Serve(handler)'',
      ''    }'',
      ''}'']"

text \<open>
  An anchor and a construction call, then \<open>k\<close> comment lines, then a one-line handler: the
  handler stands on line \<open>k + 2\<close>.
\<close>

definition far_handler_example :: "nat \<Rightarrow> string list" where
  "far_handler_example k =
     [''for i := 0; i < b.N; i++ {'',
      ''conn := NewConnection(mockConn, config)''] @
     replicate k ''// warm up'' @
     [''handler := func(req *Request, rw *ResponseWriter) error { return nil }'',
      ''conn.Serve(handler)'',
      ''}'']"





section \<open>Facts about the string operations\<close>

lemma py_split_not_Nil: "py_split sep s \<noteq> []"
  by (induction s) (auto split: list.splits)

lemma py_join_Cons: "py_join sep (x # xs) = x @ concat (map (\<lambda>l. sep @ l) xs)"
  by (induction xs arbitrary: x) auto

lemma py_join_split: "py_join [sep] (py_split sep s) = s"
proof (induction s)
  case Nil
  show ?case by simp
next
  case (Cons c cs)
  obtain l ls where split: "py_split sep cs = l # ls"
    using py_split_not_Nil [of sep cs] by (cases "py_split sep cs") auto
  with Cons show ?case
    by (auto simp: py_join_Cons)
qed

lemma py_replace_absent: "\<not> py_in old s \<Longrightarrow> py_replace old new s = s"
proof (induction s)
  case Nil
  then show ?case by (auto simp: py_in_def)
next
  case (Cons c cs)
  then have "old \<noteq> []" "\<not> prefix old (c # cs)" "\<not> py_in old cs"
    by (auto simp: py_in_def sublist_Cons_right)
  with Cons.IH show ?case by simp
qed

lemma py_in_not_Nil: "py_in sub s \<Longrightarrow> sub \<noteq> [] \<Longrightarrow> s \<noteq> []"
  by (auto simp: py_in_def)












lemma concat_map_single: "(\<forall>x\<in>set xs. g x = [f x]) \<Longrightarrow> concat (map g xs) = map f xs"
  by (induction xs) auto






lemma universal_newlines_no_CR: "CHR 0x0D \<notin> set (universal_newlines s)"
  by (induction s rule: universal_newlines.induct) auto


section \<open>Facts about the extraction loop\<close>

lemma brace_depth_single: "brace_depth lines k k = brace_delta (lines ! k)"
  by (simp add: brace_depth_def)

lemma brace_depth_first:
  "k \<le> e \<Longrightarrow> brace_depth lines k e = brace_delta (lines ! k) + brace_depth lines (Suc k) e"
  by (simp add: brace_depth_def upt_conv_Cons del: upt_Suc)

lemma block_lines_single: "block_lines lines k k = [lines ! k]"
  by (simp add: block_lines_def)

lemma block_lines_first:
  "k \<le> e \<Longrightarrow> block_lines lines k e = lines ! k # block_lines lines (Suc k) e"
  by (simp add: block_lines_def upt_conv_Cons del: upt_Suc)

lemma extract_handler_Some:
  "extract_handler lines k stop bc acc = Some (s, sv) \<Longrightarrow>
     \<exists>e. k \<le> e \<and> e < stop \<and> sv = e + 2 \<and> s = py_join NL (acc @ block_lines lines k e) \<and>
         bc + brace_depth lines k e = 0 \<and> CHR ''{'' \<in> set (lines ! e) \<and>
         (\<forall>m. k \<le> m \<and> m < e \<longrightarrow>
            \<not> (bc + brace_depth lines k m = 0 \<and> CHR ''{'' \<in> set (lines ! m)))"
proof (induction "stop - k" arbitrary: k bc acc)
  case 0
  then show ?case
    by (simp add: extract_handler.simps [of lines k])
next
  case (Suc d)
  then have lt: "k < stop"
    by simp
  let ?bc = "bc + brace_delta (lines ! k)"
  show ?case
  proof (cases "?bc = 0 \<and> CHR ''{'' \<in> set (lines ! k)")
    case True
    with Suc.prems lt have "s = py_join NL (acc @ [lines ! k])" "sv = k + 2"
      by (simp_all add: extract_handler.simps [of lines k] Let_def)
    with True lt show ?thesis
      by (intro exI [of _ k]) (auto simp: brace_depth_single block_lines_single)
  next
    case False
    with Suc.prems lt
    have rec: "extract_handler lines (Suc k) stop ?bc (acc @ [lines ! k]) = Some (s, sv)"
      by (simp add: extract_handler.simps [of lines k] Let_def)
    have "d = stop - Suc k"
      using Suc.hyps(2) by simp
    from Suc.hyps(1) [OF this rec] obtain e where e:
      "Suc k \<le> e" "e < stop" "sv = e + 2"
      "s = py_join NL ((acc @ [lines ! k]) @ block_lines lines (Suc k) e)"
      "?bc + brace_depth lines (Suc k) e = 0" "CHR ''{'' \<in> set (lines ! e)"
      "\<forall>m. Suc k \<le> m \<and> m < e \<longrightarrow>
          \<not> (?bc + brace_depth lines (Suc k) m = 0 \<and> CHR ''{'' \<in> set (lines ! m))"
      by blast
    have "\<forall>m. k \<le> m \<and> m < e \<longrightarrow>
            \<not> (bc + brace_depth lines k m = 0 \<and> CHR ''{'' \<in> set (lines ! m))"
    proof (intro allI impI)
      fix m
      assume m: "k \<le> m \<and> m < e"
      show "\<not> (bc + brace_depth lines k m = 0 \<and> CHR ''{'' \<in> set (lines ! m))"
      proof (cases "m = k")
        case True
        with False show ?thesis
          by (simp add: brace_depth_single)
      next
        case False
        with m have "Suc k \<le> m \<and> m < e"
          by simp
        with e(7) have "\<not> (?bc + brace_depth lines (Suc k) m = 0 \<and> CHR ''{'' \<in> set (lines ! m))"
          by blast
        moreover have "brace_depth lines k m = brace_delta (lines ! k) + brace_depth lines (Suc k) m"
          using m by (simp add: brace_depth_first)
        ultimately show ?thesis
          by (simp add: add.assoc)
      qed
    qed
    moreover have "k \<le> e"
      using e(1) by simp
    moreover have "s = py_join NL (acc @ block_lines lines k e)"
      using e(4) \<open>k \<le> e\<close> by (simp add: block_lines_first)
    moreover have "bc + brace_depth lines k e = 0"
      using e(5) \<open>k \<le> e\<close> by (simp add: brace_depth_first add.assoc)
    ultimately show ?thesis
      using e(2,3,6) by blast
  qed
qed

lemma extract_handler_None:
  "(\<forall>e. k \<le> e \<and> e < stop \<longrightarrow>
      \<not> (bc + brace_depth lines k e = 0 \<and> CHR ''{'' \<in> set (lines ! e))) \<Longrightarrow>
   extract_handler lines k stop bc acc = None"
proof (induction "stop - k" arbitrary: k bc acc)
  case 0
  then show ?case
    by (simp add: extract_handler.simps [of lines k])
next
  case (Suc d)
  then have lt: "k < stop"
    by simp
  let ?bc = "bc + brace_delta (lines ! k)"
  from Suc.prems lt have here: "\<not> (?bc = 0 \<and> CHR ''{'' \<in> set (lines ! k))"
    using brace_depth_single [of lines k] by (metis order_refl)
  have "\<forall>e. Suc k \<le> e \<and> e < stop \<longrightarrow>
          \<not> (?bc + brace_depth lines (Suc k) e = 0 \<and> CHR ''{'' \<in> set (lines ! e))"
  proof (intro allI impI)
    fix e
    assume e: "Suc k \<le> e \<and> e < stop"
    then have "brace_depth lines k e = brace_delta (lines ! k) + brace_depth lines (Suc k) e"
      by (simp add: brace_depth_first)
    moreover from e Suc.prems
    have "\<not> (bc + brace_depth lines k e = 0 \<and> CHR ''{'' \<in> set (lines ! e))"
      by simp
    ultimately show "\<not> (?bc + brace_depth lines (Suc k) e = 0 \<and> CHR ''{'' \<in> set (lines ! e))"
      by (simp add: add.assoc)
  qed
  moreover have "d = stop - Suc k"
    using Suc.hyps(2) by simp
  ultimately have "extract_handler lines (Suc k) stop ?bc (acc @ [lines ! k]) = None"
    using Suc.hyps(1) by blast
  with here lt show ?case
    by (simp add: extract_handler.simps [of lines k] Let_def)
qed

lemma extract_handler_one_line:
  "k < stop \<Longrightarrow> brace_delta (lines ! k) = 0 \<Longrightarrow> CHR ''{'' \<in> set (lines ! k) \<Longrightarrow>
   extract_handler lines k stop 0 [] = Some (lines ! k, k + 2)"
  by (simp add: extract_handler.simps [of lines k] Let_def)






section \<open>Facts about the look-ahead loop\<close>

lemma look_ahead_handler:
  "look_ahead lines i j nc = (Some (s, sv), x) \<Longrightarrow>
     \<exists>h. j \<le> h \<and> h < length lines \<and> h < i + 20 \<and> py_in HANDLER_SIG (lines ! h) \<and>
         (\<forall>k. j \<le> k \<and> k < h \<longrightarrow> \<not> py_in HANDLER_SIG (lines ! k)) \<and>
         extract_handler lines h (min (h + 15) (length lines)) 0 [] = Some (s, sv)"
proof (induction lines i j nc rule: look_ahead.induct)
  case (1 lines i j nc)
  show ?case
  proof (cases "j < length lines \<and> j < i + 20")
    case False
    with "1.prems" show ?thesis
      by (simp add: look_ahead.simps [of lines i j])
  next
    case in_window: True
    show ?thesis
    proof (cases "py_in HANDLER_SIG (lines ! j)")
      case True
      with "1.prems" in_window
      have "extract_handler lines j (min (j + 15) (length lines)) 0 [] = Some (s, sv)"
        by (simp add: look_ahead.simps [of lines i j])
      with True in_window show ?thesis
        by (intro exI [of _ j]) auto
    next
      case False
      with "1.prems" in_window
      have "look_ahead lines i (Suc j)
              (if py_in NEWCONN_OLD (lines ! j) then Some j else nc) = (Some (s, sv), x)"
        by (simp add: look_ahead.simps [of lines i j])
      from "1.IH" [OF in_window False this] obtain h where h:
        "Suc j \<le> h" "h < length lines" "h < i + 20" "py_in HANDLER_SIG (lines ! h)"
        "\<forall>k. Suc j \<le> k \<and> k < h \<longrightarrow> \<not> py_in HANDLER_SIG (lines ! k)"
        "extract_handler lines h (min (h + 15) (length lines)) 0 [] = Some (s, sv)"
        by blast
      have "\<forall>k. j \<le> k \<and> k < h \<longrightarrow> \<not> py_in HANDLER_SIG (lines ! k)"
      proof (intro allI impI)
        fix k
        assume "j \<le> k \<and> k < h"
        then have "k = j \<or> (Suc j \<le> k \<and> k < h)"
          by auto
        with False h(5) show "\<not> py_in HANDLER_SIG (lines ! k)"
          by blast
      qed
      with h(1,2,3,4,6) show ?thesis
        by (intro exI [of _ h]) auto
    qed
  qed
qed

lemma look_ahead_newconn:
  "look_ahead lines i j nc = (hdl, Some n) \<Longrightarrow>
     nc = Some n \<or>
     (j \<le> n \<and> n < length lines \<and> n < i + 20 \<and> py_in NEWCONN_OLD (lines ! n) \<and>
      (\<forall>k. j \<le> k \<and> k \<le> n \<longrightarrow> \<not> py_in HANDLER_SIG (lines ! k)))"
proof (induction lines i j nc rule: look_ahead.induct)
  case (1 lines i j nc)
  show ?case
  proof (cases "j < length lines \<and> j < i + 20")
    case False
    with "1.prems" show ?thesis
      by (simp add: look_ahead.simps [of lines i j])
  next
    case in_window: True
    show ?thesis
    proof (cases "py_in HANDLER_SIG (lines ! j)")
      case True
      with "1.prems" in_window show ?thesis
        by (simp add: look_ahead.simps [of lines i j])
    next
      case False
      let ?nc = "if py_in NEWCONN_OLD (lines ! j) then Some j else nc"
      from False "1.prems" in_window
      have "look_ahead lines i (Suc j) ?nc = (hdl, Some n)"
        by (simp add: look_ahead.simps [of lines i j])
      from "1.IH" [OF in_window False this]
      consider "?nc = Some n"
        | "Suc j \<le> n" "n < length lines" "n < i + 20" "py_in NEWCONN_OLD (lines ! n)"
          "\<forall>k. Suc j \<le> k \<and> k \<le> n \<longrightarrow> \<not> py_in HANDLER_SIG (lines ! k)"
        by blast
      then show ?thesis
      proof cases
        case 1
        with False in_window show ?thesis
          by (auto split: if_splits)
      next
        case 2
        have "\<forall>k. j \<le> k \<and> k \<le> n \<longrightarrow> \<not> py_in HANDLER_SIG (lines ! k)"
        proof (intro allI impI)
          fix k
          assume "j \<le> k \<and> k \<le> n"
          then have "k = j \<or> (Suc j \<le> k \<and> k \<le> n)"
            by auto
          with False 2(5) show "\<not> py_in HANDLER_SIG (lines ! k)"
            by blast
        qed
        with 2 show ?thesis
          by auto
      qed
    qed
  qed
qed

lemma look_ahead_keeps_newconn:
  "\<exists>m'. snd (look_ahead lines i j (Some m)) = Some m' \<and> (m' = m \<or> j \<le> m')"
proof (induction "(i + 20) - j" arbitrary: j m)
  case 0
  then show ?case
    by (simp add: look_ahead.simps [of lines i j])
next
  case (Suc d)
  have d: "d = (i + 20) - Suc j"
    using Suc.hyps(2) by simp
  show ?case
  proof (cases "j < length lines \<and> \<not> py_in HANDLER_SIG (lines ! j)")
    case False
    then show ?thesis
      by (auto simp: look_ahead.simps [of lines i j])
  next
    case True
    let ?m = "if py_in NEWCONN_OLD (lines ! j) then j else m"
    from Suc.hyps(1) [OF d, of ?m]
    obtain m' where m': "snd (look_ahead lines i (Suc j) (Some ?m)) = Some m'"
      "m' = ?m \<or> Suc j \<le> m'"
      by blast
    have "j < i + 20"
      using Suc.hyps(2) by simp
    with True have "look_ahead lines i j (Some m) = look_ahead lines i (Suc j) (Some ?m)"
      by (simp add: look_ahead.simps [of lines i j])
    with m' show ?thesis
      by (auto split: if_splits)
  qed
qed

lemma look_ahead_upto_newconn:
  "j \<le> n \<Longrightarrow> n < length lines \<Longrightarrow> n < i + 20 \<Longrightarrow> py_in NEWCONN_OLD (lines ! n) \<Longrightarrow>
   (\<forall>k. j \<le> k \<and> k \<le> n \<longrightarrow> \<not> py_in HANDLER_SIG (lines ! k)) \<Longrightarrow>
   look_ahead lines i j nc = look_ahead lines i (Suc n) (Some n)"
proof (induction "n - j" arbitrary: j nc)
  case 0
  then have "j = n"
    by simp
  with "0.prems" show ?case
    by (simp add: look_ahead.simps [of lines i n])
next
  case (Suc d)
  then have lt: "j < n"
    by simp
  with Suc.prems have nh: "\<not> py_in HANDLER_SIG (lines ! j)" and win: "j < length lines \<and> j < i + 20"
    by auto
  have "d = n - Suc j"
    using Suc.hyps(2) by simp
  moreover have "Suc j \<le> n"
    using lt by simp
  moreover have "\<forall>k. Suc j \<le> k \<and> k \<le> n \<longrightarrow> \<not> py_in HANDLER_SIG (lines ! k)"
    using Suc.prems(5) by auto
  ultimately have "look_ahead lines i (Suc j) (if py_in NEWCONN_OLD (lines ! j) then Some j else nc)
      = look_ahead lines i (Suc n) (Some n)"
    using Suc.hyps(1) Suc.prems(2,3,4) by blast
  with nh win show ?case
    by (simp add: look_ahead.simps [of lines i j])
qed

lemma look_ahead_upto_handler:
  "j \<le> h \<Longrightarrow> h < length lines \<Longrightarrow> h < i + 20 \<Longrightarrow> py_in HANDLER_SIG (lines ! h) \<Longrightarrow>
   (\<forall>k. j \<le> k \<and> k < h \<longrightarrow> \<not> py_in HANDLER_SIG (lines ! k) \<and> \<not> py_in NEWCONN_OLD (lines ! k)) \<Longrightarrow>
   look_ahead lines i j nc = (extract_handler lines h (min (h + 15) (length lines)) 0 [], nc)"
proof (induction "h - j" arbitrary: j)
  case 0
  then have "j = h"
    by simp
  with "0.prems" show ?case
    by (simp add: look_ahead.simps [of lines i h])
next
  case (Suc d)
  then have lt: "j < h"
    by simp
  with Suc.prems have nh: "\<not> py_in HANDLER_SIG (lines ! j)" "\<not> py_in NEWCONN_OLD (lines ! j)"
    and win: "j < length lines \<and> j < i + 20"
    by auto
  have "d = h - Suc j"
    using Suc.hyps(2) by simp
  moreover have "Suc j \<le> h"
    using lt by simp
  moreover have "\<forall>k. Suc j \<le> k \<and> k < h \<longrightarrow>
      \<not> py_in HANDLER_SIG (lines ! k) \<and> \<not> py_in NEWCONN_OLD (lines ! k)"
    using Suc.prems(5) by auto
  ultimately have "look_ahead lines i (Suc j) nc
      = (extract_handler lines h (min (h + 15) (length lines)) 0 [], nc)"
    using Suc.hyps(1) Suc.prems(2,3,4) by blast
  with nh win show ?case
    by (simp add: look_ahead.simps [of lines i j])
qed

lemma look_ahead_one_line_block:
  assumes "i < n" "n < h" "h < i + 20" "h < length lines"
    and "py_in NEWCONN_OLD (lines ! n)" "\<forall>k\<in>{Suc n..<h}. \<not> py_in NEWCONN_OLD (lines ! k)"
    and "py_in HANDLER_SIG (lines ! h)" "\<forall>k\<in>{Suc i..<h}. \<not> py_in HANDLER_SIG (lines ! k)"
    and "brace_delta (lines ! h) = 0" "CHR ''{'' \<in> set (lines ! h)"
  shows "look_ahead lines i (Suc i) None = (Some (lines ! h, h + 2), Some n)"
proof -
  have "look_ahead lines i (Suc i) None = look_ahead lines i (Suc n) (Some n)"
    using assms(1-5,8) by (intro look_ahead_upto_newconn) auto
  also have "\<dots> = (extract_handler lines h (min (h + 15) (length lines)) 0 [], Some n)"
    using assms(1-4,6-8) by (intro look_ahead_upto_handler) auto
  also have "extract_handler lines h (min (h + 15) (length lines)) 0 [] = Some (lines ! h, h + 2)"
    using assms(4,9,10) by (intro extract_handler_one_line) auto
  finally show ?thesis .
qed

section \<open>Facts about the region loop and the main loop\<close>

lemma emit_region_step:
  "i \<le> sv \<Longrightarrow> i < length lines \<Longrightarrow>
   emit_region lines i sv n r = emit_region lines (Suc i) sv n (r @ emit_line lines n i)"
  by (subst emit_region.simps) (simp add: emit_line_def)

lemma emit_region_closed:
  "i \<le> Suc sv \<Longrightarrow> sv < length lines \<Longrightarrow>
   emit_region lines i sv n r = Inr (Suc sv, r @ concat (map (emit_line lines n) [i..<Suc sv]))"
proof (induction "Suc sv - i" arbitrary: i r)
  case 0
  then have "i = Suc sv"
    by simp
  then show ?case
    by (simp add: emit_region.simps [of lines "Suc sv"])
next
  case (Suc d)
  then have le: "i \<le> sv" and lt: "i < length lines"
    by simp_all
  have "d = Suc sv - Suc i"
    using Suc.hyps(2) by simp
  moreover have "Suc i \<le> Suc sv"
    using le by simp
  ultimately have "emit_region lines (Suc i) sv n (r @ emit_line lines n i) =
      Inr (Suc sv, (r @ emit_line lines n i) @ concat (map (emit_line lines n) [Suc i..<Suc sv]))"
    using Suc.hyps(1) Suc.prems(2) by blast
  moreover have "[i..<Suc sv] = i # [Suc i..<Suc sv]"
    using le by (simp add: upt_conv_Cons del: upt_Suc)
  ultimately show ?case
    using le lt by (simp add: emit_region_step del: upt_Suc)
qed

lemma emit_region_raises:
  "i \<le> sv \<Longrightarrow> length lines \<le> sv \<Longrightarrow> emit_region lines i sv n r = Inl IndexError"
proof (induction "length lines - i" arbitrary: i r)
  case 0
  then show ?case
    by (simp add: emit_region.simps [of lines i])
next
  case (Suc d)
  then have lt: "i < length lines"
    by simp
  with Suc.prems have "Suc i \<le> sv"
    by simp
  moreover have "d = length lines - Suc i"
    using Suc.hyps(2) by simp
  ultimately have "emit_region lines (Suc i) sv n (r @ emit_line lines n i) = Inl IndexError"
    using Suc.hyps(1) Suc.prems(2) by blast
  with Suc.prems(1) lt show ?case
    by (simp add: emit_region_step)
qed

lemma HANDLER_SIG_not_Nil: "HANDLER_SIG \<noteq> []"
  by (simp add: HANDLER_SIG_def)

lemma py_join_block_not_Nil:
  "h \<le> e \<Longrightarrow> py_in HANDLER_SIG (lines ! h) \<Longrightarrow> py_join NL (block_lines lines h e) \<noteq> []"
  using py_in_not_Nil [OF _ HANDLER_SIG_not_Nil, of "lines ! h"]
  by (simp add: block_lines_first py_join_Cons)

lemma look_ahead_match:
  assumes "look_ahead lines i (Suc i) None = (Some (s, sv), Some n)"
  shows "\<exists>h e. i < n \<and> n < h \<and> h \<le> e \<and> e < length lines \<and> h < i + 20 \<and> e < h + 15 \<and>
           sv = e + 2 \<and> s = py_join NL (block_lines lines h e) \<and> s \<noteq> [] \<and>
           py_in NEWCONN_OLD (lines ! n) \<and> py_in HANDLER_SIG (lines ! h) \<and>
           (\<forall>k. i < k \<and> k < h \<longrightarrow> \<not> py_in HANDLER_SIG (lines ! k)) \<and>
           brace_depth lines h e = 0 \<and> CHR ''{'' \<in> set (lines ! e) \<and>
           (\<forall>m. h \<le> m \<and> m < e \<longrightarrow>
              \<not> (brace_depth lines h m = 0 \<and> CHR ''{'' \<in> set (lines ! m)))"
proof -
  from look_ahead_handler [OF assms] obtain h where h:
    "Suc i \<le> h" "h < length lines" "h < i + 20" "py_in HANDLER_SIG (lines ! h)"
    "\<forall>k. Suc i \<le> k \<and> k < h \<longrightarrow> \<not> py_in HANDLER_SIG (lines ! k)"
    "extract_handler lines h (min (h + 15) (length lines)) 0 [] = Some (s, sv)"
    by blast
  from extract_handler_Some [OF h(6)] obtain e where e:
    "h \<le> e" "e < min (h + 15) (length lines)" "sv = e + 2"
    "s = py_join NL (block_lines lines h e)" "brace_depth lines h e = 0"
    "CHR ''{'' \<in> set (lines ! e)"
    "\<forall>m. h \<le> m \<and> m < e \<longrightarrow> \<not> (brace_depth lines h m = 0 \<and> CHR ''{'' \<in> set (lines ! m))"
    by auto
  from look_ahead_newconn [OF assms] have n:
    "Suc i \<le> n" "py_in NEWCONN_OLD (lines ! n)"
    "\<forall>k. Suc i \<le> k \<and> k \<le> n \<longrightarrow> \<not> py_in HANDLER_SIG (lines ! k)"
    by auto
  from n(3) h(1,4) have "n < h"
    by (meson not_le_imp_less)
  moreover have "s \<noteq> []"
    using e(1,4) h(4) by (simp add: py_join_block_not_Nil)
  moreover have "\<forall>k. i < k \<and> k < h \<longrightarrow> \<not> py_in HANDLER_SIG (lines ! k)"
    using h(5) by auto
  ultimately show ?thesis
    using h(1,3,4) e n(1,2) by (intro exI [of _ h] exI [of _ e]) auto
qed

lemma scan_copy:
  "i < length lines \<Longrightarrow> \<not> rewrites_at lines i \<Longrightarrow>
   scan lines i r = scan lines (Suc i) (r @ [lines ! i])"
  by (subst scan.simps)
    (auto simp: rewrites_at_def Let_def split: prod.splits option.splits)

lemma scan_end: "length lines \<le> i \<Longrightarrow> scan lines i r = Inr r"
  by (simp add: scan.simps [of lines i])

lemma scan_rewrite:
  assumes "i < length lines" "py_in LOOP_ANCHOR (lines ! i)"
    and "look_ahead lines i (Suc i) None = (Some (s, sv), Some n)"
  shows "scan lines i r =
     (if sv < length lines
      then scan lines (Suc sv)
             (r @ [TAB @ py_strip s, [], lines ! i] @
                concat (map (emit_line lines n) [Suc i..<Suc sv]))
      else Inl IndexError)"
proof -
  from look_ahead_match [OF assms(3)] have facts: "s \<noteq> []" "n \<noteq> 0" "Suc i \<le> sv"
    by auto
  have unfold: "scan lines i r =
      (case emit_region lines (Suc i) sv n (r @ [TAB @ py_strip s, [], lines ! i]) of
         Inl e \<Rightarrow> Inl e | Inr (i', r') \<Rightarrow> scan lines i' r')"
    using assms facts by (subst scan.simps) (simp add: Let_def)
  show ?thesis
  proof (cases "sv < length lines")
    case True
    with facts(3) show ?thesis
      unfolding unfold by (simp add: emit_region_closed del: upt_Suc)
  next
    case False
    with facts(3) show ?thesis
      unfolding unfold by (simp add: emit_region_raises)
  qed
qed

lemma scan_copy_rest:
  "(\<forall>k. i \<le> k \<and> k < length lines \<longrightarrow> \<not> rewrites_at lines k) \<Longrightarrow>
   scan lines i r = Inr (r @ drop i lines)"
proof (induction "length lines - i" arbitrary: i r)
  case 0
  then show ?case
    by (simp add: scan_end)
next
  case (Suc d)
  then have lt: "i < length lines"
    by simp
  have "d = length lines - Suc i"
    using Suc.hyps(2) by simp
  moreover have "\<forall>k. Suc i \<le> k \<and> k < length lines \<longrightarrow> \<not> rewrites_at lines k"
    using Suc.prems by auto
  ultimately have "scan lines (Suc i) (r @ [lines ! i]) = Inr ((r @ [lines ! i]) @ drop (Suc i) lines)"
    using Suc.hyps(1) by blast
  moreover have "\<not> rewrites_at lines i"
    using Suc.prems lt by auto
  ultimately show ?case
    using lt by (simp add: scan_copy Cons_nth_drop_Suc)
qed

lemma scan_copy_upto:
  "i \<le> j \<Longrightarrow> j \<le> length lines \<Longrightarrow> (\<forall>k. i \<le> k \<and> k < j \<longrightarrow> \<not> rewrites_at lines k) \<Longrightarrow>
   scan lines i r = scan lines j (r @ take (j - i) (drop i lines))"
proof (induction "j - i" arbitrary: i r)
  case 0
  then show ?case
    by simp
next
  case (Suc d)
  then have lt: "i < j" "i < length lines"
    by simp_all
  have "d = j - Suc i"
    using Suc.hyps(2) by simp
  moreover have "\<forall>k. Suc i \<le> k \<and> k < j \<longrightarrow> \<not> rewrites_at lines k"
    using Suc.prems by auto
  moreover have "Suc i \<le> j"
    using lt by simp
  ultimately have "scan lines (Suc i) (r @ [lines ! i]) =
      scan lines j ((r @ [lines ! i]) @ take (j - Suc i) (drop (Suc i) lines))"
    using Suc.hyps(1) Suc.prems(2) by blast
  moreover have "\<not> rewrites_at lines i"
    using Suc.prems lt by auto
  moreover have "take (j - i) (drop i lines) = lines ! i # take (j - Suc i) (drop (Suc i) lines)"
    using lt by (metis Cons_nth_drop_Suc Suc.hyps(2) \<open>d = j - Suc i\<close> take_Suc_Cons)
  ultimately show ?case
    using lt by (simp add: scan_copy)
qed


lemma fix_benchmark_pattern_copy:
  assumes "\<forall>k. k < length (py_split (CHR 0x0A) content) \<longrightarrow>
             \<not> rewrites_at (py_split (CHR 0x0A) content) k"
  shows "fix_benchmark_pattern content = Inr content"
proof -
  have "scan (py_split (CHR 0x0A) content) 0 [] = Inr (py_split (CHR 0x0A) content)"
    using assms scan_copy_rest [of 0 "py_split (CHR 0x0A) content" "[]"] by simp
  then show ?thesis
    by (simp add: fix_benchmark_pattern_def NL_def py_join_split)
qed

lemma rewrites_at_match:
  assumes "rewrites_at lines i"
  obtains s sv n where "py_in LOOP_ANCHOR (lines ! i)"
    "look_ahead lines i (Suc i) None = (Some (s, sv), Some n)"
  using assms by (auto simp: rewrites_at_def split: prod.splits option.splits)

lemma handler_sig_has_skip: "py_in HANDLER_SIG l \<Longrightarrow> py_in HANDLER_SKIP l"
proof -
  assume "py_in HANDLER_SIG l"
  moreover have "sublist HANDLER_SKIP HANDLER_SIG"
    by (simp add: HANDLER_SKIP_def HANDLER_SIG_def)
  ultimately show ?thesis
    unfolding py_in_def by (meson sublist_order.order_trans)
qed

lemma not_anchor_not_rewrites: "\<not> py_in LOOP_ANCHOR (lines ! k) \<Longrightarrow> \<not> rewrites_at lines k"
  by (simp add: rewrites_at_def)

lemma index_error_example:
  "fix_benchmark_pattern (py_join NL
     [''for i := 0; i < b.N; i++ {'',
      ''conn := NewConnection(mockConn, config)'',
      ''handler := func(req *Request, rw *ResponseWriter) error { return nil }'',
      ''conn.Serve(handler)'']) = Inl IndexError"
  by code_simp





section \<open>The claims\<close>

text \<open>
  C1 (amended). Take an input with an anchor on line \<open>i\<close>, whose window holds a handler
  that opens and closes its braces on one line \<open>h\<close> (the first line of the window with the
  handler signature), with the old construction call on a line \<open>n\<close> between them (the last
  one before \<open>h\<close>), with \<open>h + 2\<close> still a line of the file, no other anchor outside the lines
  \<open>i..h + 2\<close> and no other line of \<open>i + 1..h + 2\<close> holding \<open>handler := func\<close>. Then the output
  is: the lines before the anchor unchanged; a tab followed by the stripped handler line; one
  empty line; the anchor line; the lines \<open>i + 1..h + 2\<close> without line \<open>h\<close>, where line \<open>n\<close> has
  the construction call replaced by the three-argument call, a line holding
  \<open>conn.Serve(handler)\<close> has it replaced by \<open>conn.Serve()\<close>, and every other line is
  unchanged; the lines after \<open>h + 2\<close> unchanged.
\<close>

theorem single_line_block_rewrite:
  assumes lines: "lines = py_split (CHR 0x0A) content"
    and order: "i < n" "n < h" "h < i + 20" "h + 2 < length lines"
    and anchor: "py_in LOOP_ANCHOR (lines ! i)"
    and no_other_anchor: "\<forall>k\<in>{0..<i} \<union> {h + 3..<length lines}. \<not> py_in LOOP_ANCHOR (lines ! k)"
    and newconn: "py_in NEWCONN_OLD (lines ! n)" "\<forall>k\<in>{Suc n..<h}. \<not> py_in NEWCONN_OLD (lines ! k)"
    and handler: "py_in HANDLER_SIG (lines ! h)" "\<forall>k\<in>{Suc i..<h}. \<not> py_in HANDLER_SIG (lines ! k)"
    and one_line: "brace_delta (lines ! h) = 0" "CHR ''{'' \<in> set (lines ! h)"
    and no_other_handler: "\<forall>k\<in>{Suc i..h + 2} - {n, h}. \<not> py_in HANDLER_SKIP (lines ! k)"
  shows "fix_benchmark_pattern content =
     Inr (py_join NL
       (take i lines @
        [TAB @ py_strip (lines ! h), [], lines ! i] @
        map (\<lambda>k. if k = n then py_replace NEWCONN_OLD NEWCONN_NEW (lines ! k)
                 else if py_in SERVE_OLD (lines ! k) then py_replace SERVE_OLD SERVE_NEW (lines ! k)
                 else lines ! k)
            ([Suc i..<h] @ [h + 1, h + 2]) @
        drop (h + 3) lines))"
proof -
  let ?f = "\<lambda>k. if k = n then py_replace NEWCONN_OLD NEWCONN_NEW (lines ! k)
                 else if py_in SERVE_OLD (lines ! k) then py_replace SERVE_OLD SERVE_NEW (lines ! k)
                 else lines ! k"
  let ?head = "take i lines @ [TAB @ py_strip (lines ! h), [], lines ! i]"
  have i: "i < length lines" and h: "h < length lines"
    using order by simp_all
  have before: "scan lines 0 [] = scan lines i (take i lines)"
    using no_other_anchor i scan_copy_upto [of 0 i lines "[]"]
    by (simp add: not_anchor_not_rewrites)
  have la: "look_ahead lines i (Suc i) None = (Some (lines ! h, h + 2), Some n)"
    using order(1-3) h newconn handler one_line by (rule look_ahead_one_line_block)
  have emit_other: "emit_line lines n k = [?f k]" if "k \<in> {Suc i..h + 2}" "k \<noteq> h" for k
    using that no_other_handler by (auto simp: emit_line_def)
  have emit_h: "emit_line lines n h = []"
    using order(2) handler(1) by (simp add: emit_line_def handler_sig_has_skip)
  have range: "[Suc i..<Suc (h + 2)] = [Suc i..<h] @ [h, h + 1, h + 2]"
  proof -
    have "[Suc i..<h + 3] = [Suc i..<h] @ [h..<h + 3]"
      using order(1,2) by (intro upt_add_eq_append) auto
    moreover have "[h..<h + 3] = [h, h + 1, h + 2]"
      by (simp add: upt_conv_Cons numeral_3_eq_3)
    moreover have "Suc (h + 2) = h + 3"
      by simp
    ultimately show ?thesis
      by (simp only:)
  qed
  have "concat (map (emit_line lines n) [Suc i..<h]) = map ?f [Suc i..<h]"
    by (rule concat_map_single) (use emit_other in auto)
  moreover have "emit_line lines n (h + 1) = [?f (h + 1)]"
    using order(1,2) by (intro emit_other) auto
  moreover have "emit_line lines n (h + 2) = [?f (h + 2)]"
    using order(1,2) by (intro emit_other) auto
  ultimately have region: "concat (map (emit_line lines n) [Suc i..<Suc (h + 2)]) =
      map ?f ([Suc i..<h] @ [h + 1, h + 2])"
    unfolding range using emit_h by simp
  have "scan lines i (take i lines) =
      scan lines (Suc (h + 2))
        (take i lines @ [TAB @ py_strip (lines ! h), [], lines ! i] @
           concat (map (emit_line lines n) [Suc i..<Suc (h + 2)]))"
    using scan_rewrite [OF i anchor la, of "take i lines"] order(4) by (simp only: if_True)
  then have at: "scan lines i (take i lines) =
      scan lines (Suc (h + 2)) (?head @ map ?f ([Suc i..<h] @ [h + 1, h + 2]))"
    unfolding region by (simp only: append_assoc)
  have after: "scan lines (Suc (h + 2)) r = Inr (r @ drop (Suc (h + 2)) lines)" for r
    using no_other_anchor by (intro scan_copy_rest) (simp add: not_anchor_not_rewrites)
  have "scan lines 0 [] =
      Inr ((?head @ map ?f ([Suc i..<h] @ [h + 1, h + 2])) @ drop (Suc (h + 2)) lines)"
    unfolding before at after ..
  moreover have "Suc (h + 2) = h + 3"
    by simp
  ultimately have "scan lines 0 [] =
      Inr (take i lines @ [TAB @ py_strip (lines ! h), [], lines ! i] @
           map ?f ([Suc i..<h] @ [h + 1, h + 2]) @ drop (h + 3) lines)"
    by (simp only: append_assoc)
  then show ?thesis
    unfolding fix_benchmark_pattern_def lines [symmetric] by (simp only: sum.case)
qed

theorem single_line_block_rewrite_witness:
  "fix_benchmark_pattern (py_join NL indented_example) =
     Inr (py_join NL
       [''func BenchmarkServe(b *testing.B) {'',
        TAB @ ''handler := func(req *Request, rw *ResponseWriter) error { return nil }'',
        '''',
        ''    for i := 0; i < b.N; i++ {'',
        ''        conn := NewConnection(mockConn, config, handler)'',
        ''        conn.Serve()'',
        ''    }'',
        ''}''])"
proof -
  let ?L = indented_example
  have lines: "?L = py_split (CHR 0x0A) (py_join NL ?L)"
    by code_simp
  have order: "(1::nat) < 2" "(2::nat) < 3" "(3::nat) < 1 + 20" "3 + 2 < length ?L"
    by code_simp+
  have anchor: "py_in LOOP_ANCHOR (?L ! 1)"
    by code_simp
  have no_other_anchor: "\<forall>k\<in>{0..<1} \<union> {3 + 3..<length ?L}. \<not> py_in LOOP_ANCHOR (?L ! k)"
    by code_simp
  have newconn: "py_in NEWCONN_OLD (?L ! 2)" "\<forall>k\<in>{Suc 2..<3}. \<not> py_in NEWCONN_OLD (?L ! k)"
    by code_simp+
  have handler: "py_in HANDLER_SIG (?L ! 3)" "\<forall>k\<in>{Suc 1..<3}. \<not> py_in HANDLER_SIG (?L ! k)"
    by code_simp+
  have one_line: "brace_delta (?L ! 3) = 0" "CHR ''{'' \<in> set (?L ! 3)"
    by code_simp+
  have no_other_handler: "\<forall>k\<in>{Suc 1..3 + 2} - {2, 3}. \<not> py_in HANDLER_SKIP (?L ! k)"
    by code_simp
  have out: "take 1 ?L @
        [TAB @ py_strip (?L ! 3), [], ?L ! 1] @
        map (\<lambda>k. if k = 2 then py_replace NEWCONN_OLD NEWCONN_NEW (?L ! k)
                 else if py_in SERVE_OLD (?L ! k) then py_replace SERVE_OLD SERVE_NEW (?L ! k)
                 else ?L ! k)
            ([Suc 1..<3] @ [3 + 1, 3 + 2]) @
        drop (3 + 3) ?L =
       [''func BenchmarkServe(b *testing.B) {'',
        TAB @ ''handler := func(req *Request, rw *ResponseWriter) error { return nil }'',
        '''',
        ''    for i := 0; i < b.N; i++ {'',
        ''        conn := NewConnection(mockConn, config, handler)'',
        ''        conn.Serve()'',
        ''    }'',
        ''}'']"
    by code_simp
  show ?thesis
    using single_line_block_rewrite [OF lines order anchor no_other_anchor newconn handler
        one_line no_other_handler]
    unfolding out .
qed

text \<open>
  C1 as stated fails: the usage call is looked for only on the lines up to two below the
  handler. Here it stands three lines below, and the output keeps \<open>conn.Serve(handler)\<close> while
  the handler is moved and the construction call rewritten.
\<close>

theorem usage_call_three_lines_below_is_kept:
  "fix_benchmark_pattern (py_join NL
     [''for i := 0; i < b.N; i++ {'',
      ''conn := NewConnection(mockConn, config)'',
      ''handler := func(req *Request, rw *ResponseWriter) error { return nil }'',
      ''b.StartTimer()'',
      ''defer b.StopTimer()'',
      ''conn.Serve(handler)'',
      ''}'']) =
   Inr (py_join NL
     [TAB @ ''handler := func(req *Request, rw *ResponseWriter) error { return nil }'',
      '''',
      ''for i := 0; i < b.N; i++ {'',
      ''conn := NewConnection(mockConn, config, handler)'',
      ''b.StartTimer()'',
      ''defer b.StopTimer()'',
      ''conn.Serve(handler)'',
      ''}''])"
  by code_simp

text \<open>
  C2. The claim that the rewrite never raises fails: the region loop reads \<open>lines[i]\<close> for
  every \<open>i\<close> up to the handler's last line plus 2 without comparing \<open>i\<close> with the number of
  lines. Here the handler is on the third of four lines, the loop runs to index 4 and
  \<open>lines[4]\<close> raises \<open>IndexError\<close>.
\<close>

theorem rewrite_raises_IndexError:
  "fix_benchmark_pattern (py_join NL
     [''for i := 0; i < b.N; i++ {'',
      ''conn := NewConnection(mockConn, config)'',
      ''handler := func(req *Request, rw *ResponseWriter) error { return nil }'',
      ''conn.Serve(handler)'']) = Inl IndexError"
  by (rule index_error_example)

text \<open>
  C3. The claim that exactly the lines \<open>h..e\<close> are suppressed fails: the region loop
  suppresses a line when it holds \<open>handler := func\<close>, not when its index lies in the block.
  Here the block found is the lines 2 to 5; only line 2 is suppressed, and the lines 3, 4 and
  5 appear twice in the output, before the anchor and at their old place.
\<close>

theorem multi_line_handler_is_emitted_twice:
  "fix_benchmark_pattern (py_join NL
     [''for i := 0; i < b.N; i++ {'',
      ''conn := NewConnection(mockConn, config)'',
      ''handler := func(req *Request, rw *ResponseWriter) error {'',
      ''return nil'',
      ''}'',
      ''if err := conn.Serve(handler); err != nil { b.Fatal(err) }'',
      ''}'',
      ''}'']) =
   Inr (py_join NL
     [TAB @ ''handler := func(req *Request, rw *ResponseWriter) error {'',
      ''return nil'',
      ''}'',
      ''if err := conn.Serve(handler); err != nil { b.Fatal(err) }'',
      '''',
      ''for i := 0; i < b.N; i++ {'',
      ''conn := NewConnection(mockConn, config, handler)'',
      ''return nil'',
      ''}'',
      ''if err := conn.Serve(); err != nil { b.Fatal(err) }'',
      ''}'',
      ''}''])"
  by code_simp

text \<open>
  C4. The claim that a handler with nested braces is extracted up to the line where the brace
  count is back at zero fails: the extraction also asks for an opening brace on that line.
  Here the count of the lines 2 to 7 is zero, line 7 is a lone closing brace, the extraction
  finds no handler and the input is returned unchanged.
\<close>

theorem nested_handler_is_not_extracted:
  "brace_depth
     [''for i := 0; i < b.N; i++ {'',
      ''conn := NewConnection(mockConn, config)'',
      ''handler := func(req *Request, rw *ResponseWriter) error {'',
      ''if req == nil {'',
      ''return nil'',
      ''}'',
      ''return nil'',
      ''}'',
      ''conn.Serve(handler)'',
      ''}''] 2 7 = 0 \<and>
   look_ahead
     [''for i := 0; i < b.N; i++ {'',
      ''conn := NewConnection(mockConn, config)'',
      ''handler := func(req *Request, rw *ResponseWriter) error {'',
      ''if req == nil {'',
      ''return nil'',
      ''}'',
      ''return nil'',
      ''}'',
      ''conn.Serve(handler)'',
      ''}''] 0 (Suc 0) None = (None, Some 1) \<and>
   fix_benchmark_pattern (py_join NL
     [''for i := 0; i < b.N; i++ {'',
      ''conn := NewConnection(mockConn, config)'',
      ''handler := func(req *Request, rw *ResponseWriter) error {'',
      ''if req == nil {'',
      ''return nil'',
      ''}'',
      ''return nil'',
      ''}'',
      ''conn.Serve(handler)'',
      ''}'']) =
   Inr (py_join NL
     [''for i := 0; i < b.N; i++ {'',
      ''conn := NewConnection(mockConn, config)'',
      ''handler := func(req *Request, rw *ResponseWriter) error {'',
      ''if req == nil {'',
      ''return nil'',
      ''}'',
      ''return nil'',
      ''}'',
      ''conn.Serve(handler)'',
      ''}''])"
  by code_simp

text \<open>
  C5 (amended). The look-ahead stops at the first line that holds the handler signature, so
  the construction call is found exactly when it stands in the window on a line with no
  handler signature on or before it: an index the look-ahead returns is such a line, and when
  such a line \<open>m\<close> exists the look-ahead returns one at or after \<open>m\<close>. A construction call
  with a handler signature on or before it is not seen; when every construction call of the
  window is of that kind, none is found and no rewrite occurs at this anchor: the anchor line
  is copied and the scan goes on at line \<open>i + 1\<close>.
\<close>

theorem newconn_found_only_before_handler:
  "(snd (look_ahead lines i (Suc i) None) = Some n \<longrightarrow>
      n \<in> window lines i \<and> py_in NEWCONN_OLD (lines ! n) \<and>
      (\<forall>k\<in>{Suc i..n}. \<not> py_in HANDLER_SIG (lines ! k))) \<and>
   (m \<in> window lines i \<and> py_in NEWCONN_OLD (lines ! m) \<and>
      (\<forall>k\<in>{Suc i..m}. \<not> py_in HANDLER_SIG (lines ! k)) \<longrightarrow>
      (\<exists>n. m \<le> n \<and> snd (look_ahead lines i (Suc i) None) = Some n)) \<and>
   ((\<forall>m\<in>window lines i. py_in NEWCONN_OLD (lines ! m) \<longrightarrow>
        (\<exists>k\<in>{Suc i..m}. py_in HANDLER_SIG (lines ! k))) \<longrightarrow>
      snd (look_ahead lines i (Suc i) None) = None \<and> \<not> rewrites_at lines i \<and>
      (i < length lines \<longrightarrow> scan lines i result = scan lines (Suc i) (result @ [lines ! i])))"
proof -
  have sound: "n \<in> window lines i \<and> py_in NEWCONN_OLD (lines ! n) \<and>
      (\<forall>k\<in>{Suc i..n}. \<not> py_in HANDLER_SIG (lines ! k))"
    if "snd (look_ahead lines i (Suc i) None) = Some n" for n
  proof -
    from that
    have "look_ahead lines i (Suc i) None = (fst (look_ahead lines i (Suc i) None), Some n)"
      by (metis prod.collapse)
    from look_ahead_newconn [OF this] show ?thesis
      by (auto simp: window_def)
  qed
  have complete: "\<exists>n. m \<le> n \<and> snd (look_ahead lines i (Suc i) None) = Some n"
    if m: "m \<in> window lines i \<and> py_in NEWCONN_OLD (lines ! m) \<and>
      (\<forall>k\<in>{Suc i..m}. \<not> py_in HANDLER_SIG (lines ! k))"
  proof -
    from m have "Suc i \<le> m" "m < length lines" "m < i + 20" "py_in NEWCONN_OLD (lines ! m)"
      "\<forall>k. Suc i \<le> k \<and> k \<le> m \<longrightarrow> \<not> py_in HANDLER_SIG (lines ! k)"
      by (auto simp: window_def)
    then have "look_ahead lines i (Suc i) None = look_ahead lines i (Suc m) (Some m)"
      by (rule look_ahead_upto_newconn)
    moreover obtain m' where "snd (look_ahead lines i (Suc m) (Some m)) = Some m'"
      "m' = m \<or> Suc m \<le> m'"
      using look_ahead_keeps_newconn by blast
    ultimately show ?thesis
      by (intro exI [of _ m']) auto
  qed
  have none: "snd (look_ahead lines i (Suc i) None) = None \<and> \<not> rewrites_at lines i \<and>
      (i < length lines \<longrightarrow> scan lines i result = scan lines (Suc i) (result @ [lines ! i]))"
    if behind: "\<forall>m\<in>window lines i. py_in NEWCONN_OLD (lines ! m) \<longrightarrow>
        (\<exists>k\<in>{Suc i..m}. py_in HANDLER_SIG (lines ! k))"
  proof -
    have none_found: "snd (look_ahead lines i (Suc i) None) = None"
    proof (cases "snd (look_ahead lines i (Suc i) None)")
      case None
      then show ?thesis .
    next
      case (Some n)
      from sound [OF this] behind show ?thesis
        by blast
    qed
    then have no_rewrite: "\<not> rewrites_at lines i"
      by (auto simp: rewrites_at_def split: prod.splits option.splits)
    then have "i < length lines \<longrightarrow> scan lines i result = scan lines (Suc i) (result @ [lines ! i])"
      by (simp add: scan_copy)
    with none_found no_rewrite show ?thesis
      by blast
  qed
  from sound [of n] complete none show ?thesis
    by blast
qed

theorem newconn_found_only_before_handler_witness:
  "snd (look_ahead
      [''for i := 0; i < b.N; i++ {'',
       ''conn := NewConnection(mockConn, config)'',
       ''handler := func(req *Request, rw *ResponseWriter) error { return nil }'']
      0 (Suc 0) None) = Some 1 \<and>
   1 \<in> window
      [''for i := 0; i < b.N; i++ {'',
       ''conn := NewConnection(mockConn, config)'',
       ''handler := func(req *Request, rw *ResponseWriter) error { return nil }''] 0 \<and>
   (\<exists>n. 1 \<le> n \<and> snd (look_ahead
      [''for i := 0; i < b.N; i++ {'',
       ''conn := NewConnection(mockConn, config)'',
       ''handler := func(req *Request, rw *ResponseWriter) error { return nil }'']
      0 (Suc 0) None) = Some n) \<and>
   \<not> rewrites_at
      [''for i := 0; i < b.N; i++ {'',
       ''handler := func(req *Request, rw *ResponseWriter) error { return nil }'',
       ''conn := NewConnection(mockConn, config)'',
       ''conn.Serve(handler)'',
       ''}''] 0 \<and>
   scan
      [''for i := 0; i < b.N; i++ {'',
       ''handler := func(req *Request, rw *ResponseWriter) error { return nil }'',
       ''conn := NewConnection(mockConn, config)'',
       ''conn.Serve(handler)'',
       ''}''] 0 [] =
   scan
      [''for i := 0; i < b.N; i++ {'',
       ''handler := func(req *Request, rw *ResponseWriter) error { return nil }'',
       ''conn := NewConnection(mockConn, config)'',
       ''conn.Serve(handler)'',
       ''}''] (Suc 0) [''for i := 0; i < b.N; i++ {'']"
  (is "snd (look_ahead ?L 0 (Suc 0) None) = Some 1 \<and> _ \<and> _ \<and> \<not> rewrites_at ?M 0 \<and> _")
proof -
  have found: "snd (look_ahead ?L 0 (Suc 0) None) = Some 1"
    by code_simp
  with newconn_found_only_before_handler [of ?L 0 1 1]
  have first: "1 \<in> window ?L 0"
    "\<exists>n. 1 \<le> n \<and> snd (look_ahead ?L 0 (Suc 0) None) = Some n"
    by blast+
  have behind: "\<forall>m\<in>window ?M 0. py_in NEWCONN_OLD (?M ! m) \<longrightarrow>
      (\<exists>k\<in>{Suc 0..m}. py_in HANDLER_SIG (?M ! k))"
    by code_simp
  have len: "0 < length ?M"
    by simp
  from newconn_found_only_before_handler [of ?M 0 0 0 "[]"] behind len
  have "\<not> rewrites_at ?M 0" "scan ?M 0 [] = scan ?M (Suc 0) ([] @ [?M ! 0])"
    by blast+
  with found first show ?thesis
    by simp
qed

text \<open>
  C5 as stated fails: with the same five lines, the construction call is found and the
  rewrite happens when the call stands before the handler, and the call is not found and the
  input is returned unchanged when it stands after the handler.
\<close>

theorem newconn_after_handler_is_not_found:
  "snd (look_ahead
      [''for i := 0; i < b.N; i++ {'',
       ''conn := NewConnection(mockConn, config)'',
       ''handler := func(req *Request, rw *ResponseWriter) error { return nil }'',
       ''conn.Serve(handler)'',
       ''}'']
      0 (Suc 0) None) = Some 1 \<and>
   look_ahead
      [''for i := 0; i < b.N; i++ {'',
       ''handler := func(req *Request, rw *ResponseWriter) error { return nil }'',
       ''conn := NewConnection(mockConn, config)'',
       ''conn.Serve(handler)'',
       ''}'']
      0 (Suc 0) None =
     (Some (''handler := func(req *Request, rw *ResponseWriter) error { return nil }'', 3), None) \<and>
   fix_benchmark_pattern (py_join NL
      [''for i := 0; i < b.N; i++ {'',
       ''conn := NewConnection(mockConn, config)'',
       ''handler := func(req *Request, rw *ResponseWriter) error { return nil }'',
       ''conn.Serve(handler)'',
       ''}'']) =
     Inr (py_join NL
      [TAB @ ''handler := func(req *Request, rw *ResponseWriter) error { return nil }'',
       '''',
       ''for i := 0; i < b.N; i++ {'',
       ''conn := NewConnection(mockConn, config, handler)'',
       ''conn.Serve()'',
       ''}'']) \<and>
   fix_benchmark_pattern (py_join NL
      [''for i := 0; i < b.N; i++ {'',
       ''handler := func(req *Request, rw *ResponseWriter) error { return nil }'',
       ''conn := NewConnection(mockConn, config)'',
       ''conn.Serve(handler)'',
       ''}'']) =
     Inr (py_join NL
      [''for i := 0; i < b.N; i++ {'',
       ''handler := func(req *Request, rw *ResponseWriter) error { return nil }'',
       ''conn := NewConnection(mockConn, config)'',
       ''conn.Serve(handler)'',
       ''}''])"
  by code_simp

text \<open>
  C6. When every anchor line of the input misses the pattern (its window holds no handler
  signature, or no old construction call, or the brace count of the handler found there is
  never back at zero within the 15 lines the extraction reads), the rewrite returns its
  input unchanged.
\<close>

theorem verbatim_when_not_matched:
  assumes lines: "lines = py_split (CHR 0x0A) content"
    and miss: "\<forall>i\<in>{0..<length lines}. py_in LOOP_ANCHOR (lines ! i) \<longrightarrow>
        (\<forall>j\<in>window lines i. \<not> py_in HANDLER_SIG (lines ! j)) \<or>
        (\<forall>j\<in>window lines i. \<not> py_in NEWCONN_OLD (lines ! j)) \<or>
        (\<exists>h\<in>window lines i. first_handler_line lines i h \<and>
           (\<forall>k\<in>cap lines h. brace_depth lines h k \<noteq> 0))"
  shows "fix_benchmark_pattern content = Inr content"
proof -
  have "\<not> rewrites_at lines i" if i: "i < length lines" for i
  proof
    assume "rewrites_at lines i"
    then obtain s sv n where anchor: "py_in LOOP_ANCHOR (lines ! i)"
      and la: "look_ahead lines i (Suc i) None = (Some (s, sv), Some n)"
      by (rule rewrites_at_match)
    from look_ahead_match [OF la] obtain h e where m:
      "i < n" "n < h" "h \<le> e" "e < length lines" "h < i + 20" "e < h + 15"
      "py_in NEWCONN_OLD (lines ! n)" "py_in HANDLER_SIG (lines ! h)"
      "\<forall>k. i < k \<and> k < h \<longrightarrow> \<not> py_in HANDLER_SIG (lines ! k)"
      "brace_depth lines h e = 0"
      by blast
    have hw: "h \<in> window lines i" and nw: "n \<in> window lines i" and ec: "e \<in> cap lines h"
      using m(1-6) by (auto simp: window_def cap_def)
    from miss i anchor consider
        "\<forall>j\<in>window lines i. \<not> py_in HANDLER_SIG (lines ! j)"
      | "\<forall>j\<in>window lines i. \<not> py_in NEWCONN_OLD (lines ! j)"
      | h' where "h' \<in> window lines i" "first_handler_line lines i h'"
          "\<forall>k\<in>cap lines h'. brace_depth lines h' k \<noteq> 0"
      by auto
    then show False
    proof cases
      case 1
      with hw m(8) show False by blast
    next
      case 2
      with nw m(7) show False by blast
    next
      case 3
      from 3(2) have h': "i < h'" "py_in HANDLER_SIG (lines ! h')"
        "\<forall>k\<in>{Suc i..<h'}. \<not> py_in HANDLER_SIG (lines ! k)"
        by (auto simp: first_handler_line_def window_def)
      have "\<not> h' < h"
        using m(9) h'(1,2) by blast
      moreover have "\<not> h < h'"
        using h'(3) m(1,2,8) by auto
      ultimately have "h' = h"
        by simp
      with 3(3) ec m(10) show False
        by blast
    qed
  qed
  then show ?thesis
    unfolding lines by (intro fix_benchmark_pattern_copy) blast
qed

theorem verbatim_when_not_matched_witness:
  "py_in LOOP_ANCHOR (unbalanced_example ! 0) \<and>
   fix_benchmark_pattern (py_join NL unbalanced_example) = Inr (py_join NL unbalanced_example)"
proof -
  let ?L = unbalanced_example
  have split: "?L = py_split (CHR 0x0A) (py_join NL ?L)"
    by code_simp
  have only: "\<forall>i\<in>{0..<length ?L}. py_in LOOP_ANCHOR (?L ! i) \<longrightarrow> i = 0"
    by code_simp
  have "2 \<in> window ?L 0"
    by code_simp
  moreover have "first_handler_line ?L 0 2"
    by code_simp
  moreover have "\<forall>k\<in>cap ?L 2. brace_depth ?L 2 k \<noteq> 0"
    by code_simp
  ultimately have "\<exists>h\<in>window ?L 0. first_handler_line ?L 0 h \<and>
      (\<forall>k\<in>cap ?L h. brace_depth ?L h k \<noteq> 0)"
    by blast
  with only have miss: "\<forall>i\<in>{0..<length ?L}. py_in LOOP_ANCHOR (?L ! i) \<longrightarrow>
        (\<forall>j\<in>window ?L i. \<not> py_in HANDLER_SIG (?L ! j)) \<or>
        (\<forall>j\<in>window ?L i. \<not> py_in NEWCONN_OLD (?L ! j)) \<or>
        (\<exists>h\<in>window ?L i. first_handler_line ?L i h \<and>
           (\<forall>k\<in>cap ?L h. brace_depth ?L h k \<noteq> 0))"
    by blast
  have "py_in LOOP_ANCHOR (?L ! 0)"
    by code_simp
  with verbatim_when_not_matched [OF split miss] show ?thesis
    by blast
qed

text \<open>
  C7. A text already in the new call shape, that is one where no line holds the old
  two-argument construction call, is returned unchanged. (The three-argument call
  \<open>NewConnection(mockConn, config, handler)\<close> does not contain the old one, and nothing is
  asked of the usage calls.)
\<close>

theorem already_migrated_unchanged:
  assumes "\<forall>l\<in>set (py_split (CHR 0x0A) content). \<not> py_in NEWCONN_OLD l"
  shows "fix_benchmark_pattern content = Inr content"
proof (rule fix_benchmark_pattern_copy, intro allI impI notI)
  fix k
  let ?lines = "py_split (CHR 0x0A) content"
  assume "k < length ?lines" and "rewrites_at ?lines k"
  then obtain s sv n where "look_ahead ?lines k (Suc k) None = (Some (s, sv), Some n)"
    by (auto elim: rewrites_at_match)
  from look_ahead_match [OF this] obtain h e where
    "n < h" "h \<le> e" "e < length ?lines" "py_in NEWCONN_OLD (?lines ! n)"
    by blast
  then have "?lines ! n \<in> set ?lines" "py_in NEWCONN_OLD (?lines ! n)"
    by simp_all
  with assms show False
    by blast
qed

theorem already_migrated_unchanged_witness:
  "fix_benchmark_pattern (py_join NL
     [''handler := func(req *Request, rw *ResponseWriter) error { return nil }'',
      '''',
      ''for i := 0; i < b.N; i++ {'',
      ''conn := NewConnection(mockConn, config, handler)'',
      ''conn.Serve()'',
      ''}'']) =
   Inr (py_join NL
     [''handler := func(req *Request, rw *ResponseWriter) error { return nil }'',
      '''',
      ''for i := 0; i < b.N; i++ {'',
      ''conn := NewConnection(mockConn, config, handler)'',
      ''conn.Serve()'',
      ''}''])"
  (is "fix_benchmark_pattern ?c = _")
proof -
  have "\<forall>l\<in>set (py_split (CHR 0x0A) ?c). \<not> py_in NEWCONN_OLD l"
    by code_simp
  then show ?thesis
    by (rule already_migrated_unchanged)
qed

text \<open>
  C8. The claim that the window is the lines \<open>i + 1\<close> to \<open>i + 20\<close> fails: the loop runs
  while \<open>j < i + 20\<close>, so the last line it reads is \<open>i + 19\<close>. A handler on line \<open>i + 20\<close> is
  not seen and the input is returned unchanged; the same handler one line higher is found.
\<close>

theorem handler_twenty_lines_below_is_not_seen:
  "far_handler_example 18 ! 20 =
     ''handler := func(req *Request, rw *ResponseWriter) error { return nil }'' \<and>
   look_ahead (far_handler_example 18) 0 (Suc 0) None = (None, Some 1) \<and>
   fix_benchmark_pattern (py_join NL (far_handler_example 18)) =
     Inr (py_join NL (far_handler_example 18)) \<and>
   far_handler_example 17 ! 19 =
     ''handler := func(req *Request, rw *ResponseWriter) error { return nil }'' \<and>
   look_ahead (far_handler_example 17) 0 (Suc 0) None =
     (Some (''handler := func(req *Request, rw *ResponseWriter) error { return nil }'', 21),
      Some 1)"
  by code_simp






end
